theory Spec2Isabelle
  imports Complex_Main
begin

section \<open>Numbers of the generator\<close>

text \<open>
  The generator works on JavaScript numbers.  Its inputs (hours, minutes, durations,
  exam priority) are the non-negative integers that the forms and the schemas of the
  application produce, and are modelled as \<^typ>\<open>nat\<close>.  The priority by which the
  generator sorts is kept as an exact \<^typ>\<open>rat\<close>; the scorer as the code computes it,
  in double precision, is modelled in a section of its own.
  A quotient whose divisor is zero is not an error in JavaScript: it is \<open>Infinity\<close>, or
  \<open>NaN\<close> for \<open>0 / 0\<close>.  The counts derived from such quotients therefore live in
  \<open>jsnum\<close>.
\<close>

datatype jsnum = Fin nat | PosInf | NaN

text \<open>\<open>Math.floor(a / b)\<close> and \<open>Math.ceil(a / b)\<close> on non-negative integers.\<close>

definition floor_quot :: "nat \<Rightarrow> nat \<Rightarrow> jsnum" where
  "floor_quot a b =
     (if b = 0 then (if a = 0 then NaN else PosInf)
      else Fin (nat \<lfloor>rat_of_nat a / rat_of_nat b\<rfloor>))"

definition ceil_quot :: "nat \<Rightarrow> nat \<Rightarrow> jsnum" where
  "ceil_quot a b =
     (if b = 0 then (if a = 0 then NaN else PosInf)
      else Fin (nat \<lceil>rat_of_nat a / rat_of_nat b\<rceil>))"

text \<open>Comparisons of a finite count with such a number; every comparison with \<open>NaN\<close> is false.\<close>

fun lt_js :: "nat \<Rightarrow> jsnum \<Rightarrow> bool" where
  "lt_js n (Fin m) = (n < m)"
| "lt_js n PosInf = True"
| "lt_js n NaN = False"

fun ge_js :: "nat \<Rightarrow> jsnum \<Rightarrow> bool" where
  "ge_js n (Fin m) = (m \<le> n)"
| "ge_js n PosInf = False"
| "ge_js n NaN = False"

text \<open>\<open>n < x - 1\<close>: the subtraction is on numbers, so \<open>0 - 1\<close> is \<open>-1\<close>.\<close>

fun lt_pred_js :: "nat \<Rightarrow> jsnum \<Rightarrow> bool" where
  "lt_pred_js n (Fin m) = (int n < int m - 1)"
| "lt_pred_js n PosInf = True"
| "lt_pred_js n NaN = False"

text \<open>\<open>Math.min(x, n)\<close>: \<open>NaN\<close> when an argument is \<open>NaN\<close>.\<close>

fun min_js :: "jsnum \<Rightarrow> nat \<Rightarrow> jsnum" where
  "min_js (Fin m) n = Fin (min m n)"
| "min_js PosInf n = Fin n"
| "min_js NaN n = NaN"

section \<open>Time arithmetic\<close>

record clock =
  hours :: nat
  minutes :: nat

text \<open>\<open>Number.prototype.toString\<close> on a non-negative integer: its decimal digits.\<close>

definition digit_char :: "nat \<Rightarrow> char" where
  "digit_char d = char_of (48 + d)"

function toString :: "nat \<Rightarrow> string" where
  "toString n = (if n < 10 then [digit_char n] else toString (n div 10) @ [digit_char (n mod 10)])"
  by pat_completeness auto
termination
  by (relation "measure id") auto

declare toString.simps [simp del]

definition padStart :: "nat \<Rightarrow> char \<Rightarrow> string \<Rightarrow> string" where
  "padStart w c s = replicate (w - length s) c @ s"

definition formatTime :: "nat \<Rightarrow> nat \<Rightarrow> string" where
  "formatTime h m =
     (let period = (if 12 \<le> h then ''PM'' else ''AM'');
          displayHours = (if h mod 12 = 0 then 12 else h mod 12);
          displayMinutes = padStart 2 (CHR ''0'') (toString m)
      in toString displayHours @ '':'' @ displayMinutes @ '' '' @ period)"

definition addMinutes :: "nat \<Rightarrow> nat \<Rightarrow> nat \<Rightarrow> clock" where
  "addMinutes h m addMins =
     (let totalMinutes = h * 60 + m + addMins
      in \<lparr>hours = nat \<lfloor>rat_of_nat totalMinutes / 60\<rfloor> mod 24, minutes = totalMinutes mod 60\<rparr>)"

text \<open>
  The allocator reads a clock back from a formatted string with the regular expression
  \<open>/(\d+):(\d+)\s*(AM|PM)/i\<close>.  The expression is not anchored: the first position of the
  string where it matches wins.  Each of its parts is followed by a character the part
  cannot contain, so matching is greedy without backtracking.
\<close>

definition is_digit :: "char \<Rightarrow> bool" where
  "is_digit c = (c \<in> set ''0123456789'')"

definition is_space :: "char \<Rightarrow> bool" where
  "is_space c = (c \<in> set [CHR '' '', char_of (9::nat), char_of (10::nat), char_of (11::nat),
                              char_of (12::nat), char_of (13::nat)])"

definition toUpperCase :: "char \<Rightarrow> char" where
  "toUpperCase c = (if c = CHR ''a'' then CHR ''A'' else if c = CHR ''p'' then CHR ''P''
                    else if c = CHR ''m'' then CHR ''M'' else c)"

definition parseInt :: "string \<Rightarrow> nat" where
  "parseInt ds = foldl (\<lambda>a c. 10 * a + (of_char c - 48)) 0 ds"

definition match_here :: "string \<Rightarrow> (string \<times> string \<times> string) option" where
  "match_here s =
     (let d1 = takeWhile is_digit s; r1 = dropWhile is_digit s
      in if d1 = [] then None
         else (case r1 of
                 [] \<Rightarrow> None
               | c # r2 \<Rightarrow>
                   if c \<noteq> CHR '':'' then None
                   else (let d2 = takeWhile is_digit r2; r3 = dropWhile is_digit r2
                         in if d2 = [] then None
                            else (let ap = map toUpperCase (take 2 (dropWhile is_space r3))
                                  in if ap = ''AM'' \<or> ap = ''PM'' then Some (d1, d2, ap)
                                     else None))))"

fun match_time :: "string \<Rightarrow> (string \<times> string \<times> string) option" where
  "match_time [] = match_here []"
| "match_time (c # cs) =
     (case match_here (c # cs) of Some r \<Rightarrow> Some r | None \<Rightarrow> match_time cs)"

text \<open>The start of the next session, read from the end time of the last one.\<close>

definition parse_end :: "string \<Rightarrow> clock \<Rightarrow> clock" where
  "parse_end endTime dflt =
     (case match_time endTime of
        None \<Rightarrow> dflt
      | Some (p1, p2, p3) \<Rightarrow>
          (let h0 = parseInt p1; m0 = parseInt p2;
               h1 = (if p3 = ''PM'' \<and> h0 \<noteq> 12 then h0 + 12 else h0);
               h2 = (if p3 = ''AM'' \<and> h1 = 12 then 0 else h1)
           in \<lparr>hours = h2, minutes = m0\<rparr>))"

section \<open>Data model\<close>

text \<open>
  A subject as stored: \<open>examPriority\<close> may be absent.  The difficulty is a string; the
  schema restricts it to the three keys of the weight table.
\<close>

record subject =
  subj_id :: nat
  name :: string
  weeklyHours :: nat
  difficulty :: string
  examPriority :: "nat option"
  color :: string

text \<open>The preferences object; an absent field takes the default of the destructuring.\<close>

record preferences =
  dailyHours :: "nat option"
  sessionDuration :: "nat option"
  breakDuration :: "nat option"

definition pref_dailyHours :: "preferences \<Rightarrow> nat" where
  "pref_dailyHours p = (case dailyHours p of None \<Rightarrow> 4 | Some h \<Rightarrow> h)"

definition pref_sessionDuration :: "preferences \<Rightarrow> nat" where
  "pref_sessionDuration p = (case sessionDuration p of None \<Rightarrow> 25 | Some d \<Rightarrow> d)"

definition pref_breakDuration :: "preferences \<Rightarrow> nat" where
  "pref_breakDuration p = (case breakDuration p of None \<Rightarrow> 5 | Some d \<Rightarrow> d)"

text \<open>The subject enriched by the generator (\<open>{...subject, sessionsNeeded, sessionsAssigned, priority}\<close>).\<close>

record subjectData = subject +
  sessionsNeeded :: jsnum
  sessionsAssigned :: nat
  priority :: rat

text \<open>An entry of the session pool.\<close>

record sessionData =
  sd_subject :: string
  sd_subjectId :: nat
  sd_color :: string
  sd_difficulty :: string
  sd_priority :: rat

datatype session_type = Study | Break

text \<open>
  A placed session.  \<open>s_difficulty\<close> is the property \<open>difficulty\<close> that the final layout
  reads from a session; it is \<open>None\<close> where the object has no such property.
\<close>

record session =
  s_subject :: string
  s_subjectId :: "nat option"
  startTime :: string
  endTime :: string
  duration :: nat
  s_type :: session_type
  completed :: bool
  s_color :: string
  s_difficulty :: "string option"

record day =
  dayOfWeek :: nat
  dayName :: string
  sessions :: "session list"
  totalStudyMinutes :: nat
  totalBreakMinutes :: nat

definition DAYS :: "string list" where
  "DAYS = [''Monday'', ''Tuesday'', ''Wednesday'', ''Thursday'', ''Friday'', ''Saturday'', ''Sunday'']"

definition DIFFICULTY_WEIGHTS :: "(string \<times> rat) list" where
  "DIFFICULTY_WEIGHTS = [(''easy'', 1), (''medium'', 3 / 2), (''hard'', 2)]"

section \<open>Priority and demand\<close>

text \<open>
  \<open>DIFFICULTY_WEIGHTS[d] || 1\<close> on the keys of the table: an absent key and a zero weight
  both give 1.  The placed sessions, whose weight the final layout reads, carry no
  difficulty at all.
\<close>

definition weight_or_one :: "string option \<Rightarrow> rat" where
  "weight_or_one d =
     (case d of
        None \<Rightarrow> 1
      | Some k \<Rightarrow> (case map_of DIFFICULTY_WEIGHTS k of
                     None \<Rightarrow> 1
                   | Some w \<Rightarrow> if w = 0 then 1 else w))"

definition calculatePriority :: "'a subject_scheme \<Rightarrow> rat" where
  "calculatePriority s =
     (let difficultyWeight = weight_or_one (Some (difficulty s));
          examWeight = 1 + rat_of_nat (case examPriority s of None \<Rightarrow> 0 | Some e \<Rightarrow> e) * (2 / 10);
          hoursWeight = min (rat_of_nat (weeklyHours s) / 10) 2
      in difficultyWeight * examWeight * hoursWeight)"

definition sessions_needed :: "'a subject_scheme \<Rightarrow> nat \<Rightarrow> jsnum" where
  "sessions_needed s sessDur = (let weeklyMinutes = weeklyHours s * 60 in ceil_quot weeklyMinutes sessDur)"

definition maxSessionsPerDay :: "preferences \<Rightarrow> jsnum" where
  "maxSessionsPerDay p = (let dailyMinutes = pref_dailyHours p * 60 in floor_quot dailyMinutes (pref_sessionDuration p))"

section \<open>Shuffling\<close>

text \<open>
  \<open>Math.random\<close> is an explicit parameter: \<open>rnd k\<close> is the outcome of the \<open>k\<close>-th call,
  a number in \<open>[0, 1)\<close>.  The Fisher-Yates loop runs \<open>i\<close> from the last index down to 1
  and swaps positions \<open>i\<close> and \<open>j = floor(random * (i + 1))\<close>.
\<close>

fun shuffle_loop :: "(nat \<Rightarrow> rat) \<Rightarrow> nat \<Rightarrow> nat \<Rightarrow> 'a list \<Rightarrow> 'a list" where
  "shuffle_loop rnd k 0 xs = xs"
| "shuffle_loop rnd k (Suc i) xs =
     (let j = nat \<lfloor>rnd k * rat_of_nat (Suc i + 1)\<rfloor>
      in shuffle_loop rnd (k + 1) i (xs[Suc i := xs ! j, j := xs ! Suc i]))"

definition shuffleArray :: "(nat \<Rightarrow> rat) \<Rightarrow> 'a list \<Rightarrow> 'a list" where
  "shuffleArray rnd array = shuffle_loop rnd 0 (length array - 1) array"

section \<open>The weekly allocator\<close>

definition day_start :: clock where
  "day_start = \<lparr>hours = 8, minutes = 0\<rparr>"

definition enrich :: "nat \<Rightarrow> subject \<Rightarrow> subjectData" where
  "enrich sessDur s =
     subject.extend s
       (subjectData.fields (sessions_needed s sessDur) 0 (calculatePriority s))"

definition empty_timetable :: "day list" where
  "empty_timetable =
     map (\<lambda>(index, dn). \<lparr>dayOfWeek = index, dayName = dn, sessions = [],
                            totalStudyMinutes = 0, totalBreakMinutes = 0\<rparr>)
         (enumerate 0 DAYS)"

text \<open>
  The pool: for each subject, \<open>for (i = 0; i < sessionsNeeded; i++)\<close> pushes one entry.
  The loop body runs never when \<open>sessionsNeeded\<close> is \<open>NaN\<close>, and the loop never ends when it
  is \<open>Infinity\<close>: then the generator does not return, which is the value \<open>None\<close>.
\<close>

definition pool_entry :: "subjectData \<Rightarrow> sessionData" where
  "pool_entry s =
     \<lparr>sd_subject = name s, sd_subjectId = subj_id s, sd_color = color s,
      sd_difficulty = difficulty s, sd_priority = priority s\<rparr>"

definition entries_of :: "subjectData \<Rightarrow> sessionData list option" where
  "entries_of s =
     (case sessionsNeeded s of
        Fin k \<Rightarrow> Some (replicate k (pool_entry s))
      | NaN \<Rightarrow> Some []
      | PosInf \<Rightarrow> None)"

fun build_pool :: "subjectData list \<Rightarrow> sessionData list option" where
  "build_pool [] = Some []"
| "build_pool (s # ss) =
     (case entries_of s of
        None \<Rightarrow> None
      | Some es \<Rightarrow> (case build_pool ss of None \<Rightarrow> None | Some r \<Rightarrow> Some (es @ r)))"

definition study_count :: "day \<Rightarrow> nat" where
  "study_count d = length (filter (\<lambda>s. s_type s = Study) (sessions d))"

text \<open>
  The scan for the target day: \<open>minSessions\<close> starts at \<open>Infinity\<close> (\<open>None\<close>) and
  \<open>targetDay\<close> at the current day; a day replaces the target when it is under the
  capacity and strictly less filled than the best so far.
\<close>

definition scan_day :: "jsnum \<Rightarrow> day list \<Rightarrow> nat \<Rightarrow> nat \<times> nat option \<Rightarrow> nat \<times> nat option" where
  "scan_day mx tt d st =
     (if lt_js (study_count (tt ! d)) mx then
        (if (case snd st of None \<Rightarrow> True | Some m \<Rightarrow> study_count (tt ! d) < m)
         then (d, Some (study_count (tt ! d)))
         else st)
      else st)"

definition find_target :: "jsnum \<Rightarrow> day list \<Rightarrow> nat \<Rightarrow> nat" where
  "find_target mx tt currentDay = fst (fold (scan_day mx tt) [0..<7] (currentDay, None))"

definition study_session :: "sessionData \<Rightarrow> clock \<Rightarrow> clock \<Rightarrow> nat \<Rightarrow> session" where
  "study_session sd st en sessDur =
     \<lparr>s_subject = sd_subject sd, s_subjectId = Some (sd_subjectId sd),
      startTime = formatTime (hours st) (minutes st),
      endTime = formatTime (hours en) (minutes en),
      duration = sessDur, s_type = Study, completed = False, s_color = sd_color sd,
      s_difficulty = None\<rparr>"

definition break_session :: "clock \<Rightarrow> clock \<Rightarrow> nat \<Rightarrow> session" where
  "break_session st en brkDur =
     \<lparr>s_subject = ''Break'', s_subjectId = None,
      startTime = formatTime (hours st) (minutes st),
      endTime = formatTime (hours en) (minutes en),
      duration = brkDur, s_type = Break, completed = False, s_color = ''#9CA3AF'',
      s_difficulty = None\<rparr>"

text \<open>
  The body of the loop over the pool.  The state is the timetable and \<open>currentDay\<close>; the
  early \<open>return\<close> leaves both unchanged.  \<open>add_to_day\<close> is the second half of the body:
  it appends the study session, and a break when the day held fewer than
  \<open>maxSessionsPerDay - 1\<close> study sessions, and adds their durations to the totals.
\<close>

definition add_to_day :: "jsnum \<Rightarrow> nat \<Rightarrow> nat \<Rightarrow> sessionData \<Rightarrow> day \<Rightarrow> day" where
  "add_to_day mx sessDur brkDur sd dy =
     (let currentStudySessions = study_count dy;
          start = (if 0 < length (sessions dy)
                   then parse_end (endTime (last (sessions dy))) day_start
                   else day_start);
          studyEnd = addMinutes (hours start) (minutes start) sessDur;
          dy1 = dy\<lparr>sessions := sessions dy @ [study_session sd start studyEnd sessDur],
                   totalStudyMinutes := totalStudyMinutes dy + sessDur\<rparr>
      in if lt_pred_js currentStudySessions mx
         then (let breakEnd = addMinutes (hours studyEnd) (minutes studyEnd) brkDur
               in dy1\<lparr>sessions := sessions dy1 @ [break_session studyEnd breakEnd brkDur],
                       totalBreakMinutes := totalBreakMinutes dy1 + brkDur\<rparr>)
         else dy1)"

definition placeSession :: "jsnum \<Rightarrow> nat \<Rightarrow> nat \<Rightarrow> sessionData \<Rightarrow> day list \<times> nat \<Rightarrow> day list \<times> nat" where
  "placeSession mx sessDur brkDur sd st =
     (let tt = fst st; currentDay = snd st;
          targetDay = find_target mx tt currentDay;
          dy = tt ! targetDay;
          currentStudySessions = study_count dy
      in if ge_js currentStudySessions mx then st
         else (tt[targetDay := add_to_day mx sessDur brkDur sd dy], (currentDay + 1) mod 7))"

text \<open>
  The final layout of a day: its study sessions, sorted (stably) by the comparator
  \<open>diffB - diffA\<close> on the weight of the session's \<open>difficulty\<close>, laid out from the day
  start with a break after every study session but the last.  The totals of the day are
  left as they are.
\<close>

definition layout_step :: "nat \<Rightarrow> nat \<Rightarrow> nat \<Rightarrow> nat \<times> session \<Rightarrow> session list \<times> clock \<Rightarrow> session list \<times> clock" where
  "layout_step sessDur brkDur n is st =
     (let idx = fst is; s = snd is; out = fst st; cur = snd st;
          studyEnd = addMinutes (hours cur) (minutes cur) sessDur;
          out1 = out @ [s\<lparr>startTime := formatTime (hours cur) (minutes cur),
                           endTime := formatTime (hours studyEnd) (minutes studyEnd)\<rparr>]
      in if int idx < int n - 1
         then (let breakEnd = addMinutes (hours studyEnd) (minutes studyEnd) brkDur
               in (out1 @ [break_session studyEnd breakEnd brkDur], breakEnd))
         else (out1, studyEnd))"

definition rebuild_day :: "nat \<Rightarrow> nat \<Rightarrow> day \<Rightarrow> day" where
  "rebuild_day sessDur brkDur d =
     (let studySessions = sort_key (\<lambda>s. - weight_or_one (s_difficulty s))
                            (filter (\<lambda>s. s_type s = Study) (sessions d))
      in d\<lparr>sessions := fst (fold (layout_step sessDur brkDur (length studySessions))
                                 (enumerate 0 studySessions) ([], day_start))\<rparr>)"

text \<open>The pool in the order in which it is walked: shuffled, then sorted by priority, highest first.\<close>

definition session_pool :: "(nat \<Rightarrow> rat) \<Rightarrow> subject list \<Rightarrow> preferences \<Rightarrow> sessionData list option" where
  "session_pool rnd subjects p =
     (let subjectData = sort_key (\<lambda>s. - priority s) (map (enrich (pref_sessionDuration p)) subjects)
      in case build_pool subjectData of
           None \<Rightarrow> None
         | Some pool \<Rightarrow> Some (sort_key (\<lambda>t. - sd_priority t) (shuffleArray rnd pool)))"

text \<open>The timetable after the placement pass, before the final layout.\<close>

definition allocate :: "(nat \<Rightarrow> rat) \<Rightarrow> subject list \<Rightarrow> preferences \<Rightarrow> day list option" where
  "allocate rnd subjects p =
     (case session_pool rnd subjects p of
        None \<Rightarrow> None
      | Some pool \<Rightarrow>
          Some (fst (fold (placeSession (maxSessionsPerDay p) (pref_sessionDuration p) (pref_breakDuration p))
                          pool (empty_timetable, 0))))"

definition generateTimetable :: "(nat \<Rightarrow> rat) \<Rightarrow> subject list \<Rightarrow> preferences \<Rightarrow> day list option" where
  "generateTimetable rnd subjects p =
     (case allocate rnd subjects p of
        None \<Rightarrow> None
      | Some tt \<Rightarrow> Some (map (rebuild_day (pref_sessionDuration p) (pref_breakDuration p)) tt))"

section \<open>The day regenerator\<close>

definition subject_session :: "subject \<Rightarrow> clock \<Rightarrow> clock \<Rightarrow> nat \<Rightarrow> session" where
  "subject_session sb st en sessDur =
     \<lparr>s_subject = name sb, s_subjectId = Some (subj_id sb),
      startTime = formatTime (hours st) (minutes st),
      endTime = formatTime (hours en) (minutes en),
      duration = sessDur, s_type = Study, completed = False, s_color = color sb,
      s_difficulty = None\<rparr>"

definition regen_step :: "jsnum \<Rightarrow> nat \<Rightarrow> nat \<Rightarrow> subject list \<Rightarrow> nat \<Rightarrow> session list \<times> clock \<Rightarrow> session list \<times> clock" where
  "regen_step maxSessions sessDur brkDur shuffledSubjects i st =
     (let out = fst st; cur = snd st;
          sb = shuffledSubjects ! (i mod length shuffledSubjects);
          studyEnd = addMinutes (hours cur) (minutes cur) sessDur;
          out1 = out @ [subject_session sb cur studyEnd sessDur]
      in if lt_pred_js i maxSessions
         then (let breakEnd = addMinutes (hours studyEnd) (minutes studyEnd) brkDur
               in (out1 @ [break_session studyEnd breakEnd brkDur], breakEnd))
         else (out1, studyEnd))"

text \<open>
  The loop runs while \<open>i < Math.min(maxSessions, shuffledSubjects.length)\<close>; the comparison
  with \<open>NaN\<close> is false, so the loop body then runs never.  The minimum with a length
  is never \<open>Infinity\<close>.  The existing day is a parameter, as in the source.
\<close>

definition loop_bound :: "jsnum \<Rightarrow> nat" where
  "loop_bound x = (case x of Fin k \<Rightarrow> k | PosInf \<Rightarrow> 0 | NaN \<Rightarrow> 0)"

definition regenerateDay :: "(nat \<Rightarrow> rat) \<Rightarrow> day \<Rightarrow> subject list \<Rightarrow> preferences \<Rightarrow> session list" where
  "regenerateDay rnd dayTimetable subjects p =
     (let sessDur = pref_sessionDuration p; brkDur = pref_breakDuration p;
          shuffledSubjects = shuffleArray rnd subjects;
          maxSessions = floor_quot (pref_dailyHours p * 60) sessDur
      in fst (fold (regen_step maxSessions sessDur brkDur shuffledSubjects)
                   [0..<loop_bound (min_js maxSessions (length shuffledSubjects))]
                   ([], day_start)))"

section \<open>The scorer in double precision\<close>

text \<open>
  The theorems about the allocator hold for every order of the pool, and there the score
  is the exact product above.  The scorer as the code computes it is modelled here: the
  read of a property of the weight table, which also finds what the table object inherits,
  and arithmetic on doubles, where every operation rounds its exact result to the nearest
  double, ties to the even significand.  No negative number arises in the scorer, so a
  double is a non-negative rational, \<open>Infinity\<close> or \<open>NaN\<close>.
\<close>

datatype double = DNum rat | DInf | DNaN

function bit_length :: "int \<Rightarrow> int" where
  "bit_length k = (if k \<le> 0 then 0 else 1 + bit_length (k div 2))"
  by pat_completeness auto
termination
  by (relation "measure nat") auto

declare bit_length.simps [simp del]

definition pow2 :: "int \<Rightarrow> rat" where
  "pow2 e = (if 0 \<le> e then 2 ^ nat e else 1 / 2 ^ nat (- e))"

text \<open>
  The binary exponent of a positive rational \<open>p / q\<close>: the difference of the bit lengths
  of \<open>p\<close> and \<open>q\<close>, or one less.
\<close>

definition ilog2 :: "rat \<Rightarrow> int" where
  "ilog2 x =
     (let pq = quotient_of x;
          k = bit_length (fst pq) - bit_length (snd pq)
      in if pow2 k \<le> x then k else k - 1)"

definition round_half_even :: "rat \<Rightarrow> int" where
  "round_half_even y =
     (let f = \<lfloor>y\<rfloor>; r = y - of_int f
      in if r < 1 / 2 then f else if 1 / 2 < r then f + 1 else if even f then f else f + 1)"

text \<open>
  Rounding to a double: a significand of 53 bits at the exponent of the number, or at
  the least exponent \<open>-1074\<close> for a subnormal; a result that reaches \<open>2 ^ 1024\<close> is
  \<open>Infinity\<close>.
\<close>

definition round_double :: "rat \<Rightarrow> double" where
  "round_double x =
     (if x = 0 then DNum 0
      else (let e = max (ilog2 x - 52) (- 1074);
                m = round_half_even (x / pow2 e)
            in if 971 < e \<or> (e = 971 \<and> m = 9007199254740992) then DInf
               else DNum (of_int m * pow2 e)))"

fun dmul :: "double \<Rightarrow> double \<Rightarrow> double" where
  "dmul DNaN y = DNaN"
| "dmul x DNaN = DNaN"
| "dmul DInf DInf = DInf"
| "dmul DInf (DNum b) = (if b = 0 then DNaN else DInf)"
| "dmul (DNum a) DInf = (if a = 0 then DNaN else DInf)"
| "dmul (DNum a) (DNum b) = round_double (a * b)"

fun dadd :: "double \<Rightarrow> double \<Rightarrow> double" where
  "dadd DNaN y = DNaN"
| "dadd x DNaN = DNaN"
| "dadd DInf y = DInf"
| "dadd x DInf = DInf"
| "dadd (DNum a) (DNum b) = round_double (a + b)"

fun ddiv :: "double \<Rightarrow> double \<Rightarrow> double" where
  "ddiv DNaN y = DNaN"
| "ddiv x DNaN = DNaN"
| "ddiv DInf DInf = DNaN"
| "ddiv DInf (DNum b) = DInf"
| "ddiv (DNum a) DInf = DNum 0"
| "ddiv (DNum a) (DNum b) =
     (if b = 0 then (if a = 0 then DNaN else DInf) else round_double (a / b))"

text \<open>\<open>Math.min\<close> on two numbers.\<close>

fun dmin :: "double \<Rightarrow> double \<Rightarrow> double" where
  "dmin DNaN y = DNaN"
| "dmin x DNaN = DNaN"
| "dmin DInf y = y"
| "dmin x DInf = x"
| "dmin (DNum a) (DNum b) = DNum (min a b)"

text \<open>
  The value of \<open>DIFFICULTY_WEIGHTS[d]\<close>.  The table is an object literal: a key that is
  not its own is looked up in \<open>Object.prototype\<close>, whose members are functions and, for
  \<open>__proto__\<close>, an object.
\<close>

datatype member = Own double | Inherited | Absent

definition object_prototype_members :: "string list" where
  "object_prototype_members =
     [''constructor'', ''__defineGetter__'', ''__defineSetter__'', ''hasOwnProperty'',
      ''__lookupGetter__'', ''__lookupSetter__'', ''isPrototypeOf'', ''propertyIsEnumerable'',
      ''toString'', ''valueOf'', ''__proto__'', ''toLocaleString'']"

definition read_weight :: "string \<Rightarrow> member" where
  "read_weight d =
     (case map_of DIFFICULTY_WEIGHTS d of
        Some w \<Rightarrow> Own (round_double w)
      | None \<Rightarrow> if d \<in> set object_prototype_members then Inherited else Absent)"

text \<open>
  \<open>x || 1\<close>: an absent property (\<open>undefined\<close>), zero and \<open>NaN\<close> give 1, a function or an
  object is kept.  As an operand of \<open>*\<close> a function or an object is converted to the
  number \<open>NaN\<close>.
\<close>

definition or_one :: "member \<Rightarrow> member" where
  "or_one x =
     (case x of
        Own w \<Rightarrow> if w = DNum 0 \<or> w = DNaN then Own (DNum 1) else Own w
      | Inherited \<Rightarrow> Inherited
      | Absent \<Rightarrow> Own (DNum 1))"

definition to_number :: "member \<Rightarrow> double" where
  "to_number x = (case x of Own w \<Rightarrow> w | Inherited \<Rightarrow> DNaN | Absent \<Rightarrow> DNaN)"

definition calculatePriority_double :: "'a subject_scheme \<Rightarrow> double" where
  "calculatePriority_double s =
     (let difficultyWeight = or_one (read_weight (difficulty s));
          examWeight = dadd (DNum 1)
                         (dmul (round_double (rat_of_nat (case examPriority s of None \<Rightarrow> 0 | Some e \<Rightarrow> e)))
                               (round_double (2 / 10)));
          hoursWeight = dmin (ddiv (round_double (rat_of_nat (weeklyHours s))) (DNum 10)) (DNum 2)
      in dmul (dmul (to_number difficultyWeight) examWeight) hoursWeight)"



section \<open>Example inputs\<close>

definition math :: subject where
  "math = \<lparr>subj_id = 1, name = ''Math'', weeklyHours = 5, difficulty = ''hard'',
            examPriority = Some 5, color = ''#3B82F6''\<rparr>"

definition long_sessions :: preferences where
  "long_sessions = \<lparr>dailyHours = Some 1, sessionDuration = Some 90, breakDuration = Some 5\<rparr>"

definition default_preferences :: preferences where
  "default_preferences = \<lparr>dailyHours = None, sessionDuration = None, breakDuration = None\<rparr>"

definition one_hour :: subject where
  "one_hour = \<lparr>subj_id = 2, name = ''Essay'', weeklyHours = 1, difficulty = ''easy'',
                examPriority = Some 0, color = ''#10B981''\<rparr>"

definition hour_sessions :: preferences where
  "hour_sessions = \<lparr>dailyHours = Some 4, sessionDuration = Some 60, breakDuration = Some 5\<rparr>"

definition essay_token :: sessionData where
  "essay_token = \<lparr>sd_subject = ''Essay'', sd_subjectId = 2, sd_color = ''#10B981'',
                   sd_difficulty = ''easy'', sd_priority = 1 / 10\<rparr>"

definition physics :: subject where
  "physics = \<lparr>subj_id = 3, name = ''Physics'', weeklyHours = 1, difficulty = ''hard'',
               examPriority = Some 0, color = ''#EF4444''\<rparr>"

definition reading :: subject where
  "reading = \<lparr>subj_id = 4, name = ''Reading'', weeklyHours = 7, difficulty = ''easy'',
               examPriority = Some 10, color = ''#F59E0B''\<rparr>"

definition monday :: day where
  "monday = \<lparr>dayOfWeek = 0, dayName = ''Monday'', sessions = [],
              totalStudyMinutes = 0, totalBreakMinutes = 0\<rparr>"

definition break_minutes :: "day \<Rightarrow> nat" where
  "break_minutes d = sum_list (map duration (filter (\<lambda>s. s_type s = Break) (sessions d)))"

definition study_minutes :: "day \<Rightarrow> nat" where
  "study_minutes d = sum_list (map duration (filter (\<lambda>s. s_type s = Study) (sessions d)))"

definition biology :: subject where
  "biology = \<lparr>subj_id = 5, name = ''Biology'', weeklyHours = 2, difficulty = ''medium'',
               examPriority = Some 0, color = ''#8B5CF6''\<rparr>"


section \<open>Invariant of the scan for the target day\<close>

text \<open>
  After the scan has looked at the days below \<open>n\<close>: either no day below \<open>n\<close> is under
  the capacity and the target is still the current day, or the target is the first of
  the least filled days under the capacity below \<open>n\<close>.
\<close>

definition scan_inv :: "jsnum \<Rightarrow> day list \<Rightarrow> nat \<Rightarrow> nat \<Rightarrow> nat \<times> nat option \<Rightarrow> bool" where
  "scan_inv mx tt cur n st =
     ((snd st = None \<and> fst st = cur \<and> (\<forall>e<n. \<not> lt_js (study_count (tt ! e)) mx))
      \<or> (snd st = Some (study_count (tt ! fst st)) \<and> fst st < n
          \<and> lt_js (study_count (tt ! fst st)) mx
          \<and> (\<forall>e<n. lt_js (study_count (tt ! e)) mx \<longrightarrow> study_count (tt ! fst st) \<le> study_count (tt ! e))
          \<and> (\<forall>e<fst st. lt_js (study_count (tt ! e)) mx \<longrightarrow> study_count (tt ! fst st) < study_count (tt ! e))))"

section \<open>Properties of the time arithmetic\<close>

lemma floor_sixty: "nat \<lfloor>rat_of_nat t / 60\<rfloor> = t div 60"
proof -
  have "\<lfloor>rat_of_nat t / rat_of_nat 60\<rfloor> = int (t div 60)"
    by (rule floor_divide_of_nat_eq)
  then show ?thesis by simp
qed

lemma addMinutes_div: "addMinutes h m a = \<lparr>hours = ((h * 60 + m + a) div 60) mod 24, minutes = (h * 60 + m + a) mod 60\<rparr>"
  by (simp add: addMinutes_def Let_def floor_sixty)

text \<open>
  Claim C8.  Adding \<open>d1\<close> minutes and then \<open>d2\<close> minutes to a clock gives the same hour and
  minute as adding \<open>d1 + d2\<close> at once, and that clock is the total number of minutes
  modulo 1440, split into hour of the day and minute.
\<close>

theorem addMinutes_compositional:
  "addMinutes (hours (addMinutes h m d1)) (minutes (addMinutes h m d1)) d2 = addMinutes h m (d1 + d2)
   \<and> hours (addMinutes h m (d1 + d2)) * 60 + minutes (addMinutes h m (d1 + d2))
       = (h * 60 + m + (d1 + d2)) mod 1440
   \<and> hours (addMinutes h m (d1 + d2)) < 24 \<and> minutes (addMinutes h m (d1 + d2)) < 60"
proof -
  define t where "t = h * 60 + m + d1"
  have split: "(x div 60) mod 24 * 60 + x mod 60 = x mod 1440" for x :: nat
  proof -
    have "x mod 1440 = x mod (60 * 24)" by simp
    also have "\<dots> = 60 * ((x div 60) mod 24) + x mod 60"
      by (rule mod_mult2_eq)
    finally show ?thesis by simp
  qed
  have h1: "((t div 60) mod 24 * 60 + t mod 60 + d2) div 60 mod 24 = ((t + d2) div 60) mod 24"
  proof -
    have "((t div 60) mod 24 * 60 + t mod 60 + d2) mod 1440 = (t + d2) mod 1440"
      by (simp add: split mod_add_left_eq)
    then have "(((t div 60) mod 24 * 60 + t mod 60 + d2) mod 1440) div 60 = ((t + d2) mod 1440) div 60"
      by simp
    moreover have "(y mod 1440) div 60 = (y div 60) mod 24" for y :: nat
      using mod_mult2_eq [of y 60 24] by simp
    ultimately show ?thesis by simp
  qed
  have h2: "((t div 60) mod 24 * 60 + t mod 60 + d2) mod 60 = (t + d2) mod 60"
  proof -
    have "((t div 60) mod 24 * 60 + (t mod 60 + d2)) mod 60 = (t mod 60 + d2) mod 60"
      by (metis add.commute mod_mult_self1)
    then show ?thesis by (simp add: add.assoc mod_add_left_eq)
  qed
  have a: "addMinutes (hours (addMinutes h m d1)) (minutes (addMinutes h m d1)) d2 = addMinutes h m (d1 + d2)"
    using h1 h2 by (simp add: addMinutes_div t_def add.assoc)
  have b: "hours (addMinutes h m (d1 + d2)) * 60 + minutes (addMinutes h m (d1 + d2))
       = (h * 60 + m + (d1 + d2)) mod 1440"
    by (simp add: addMinutes_div split)
  have c: "hours (addMinutes h m (d1 + d2)) < 24 \<and> minutes (addMinutes h m (d1 + d2)) < 60"
    by (simp add: addMinutes_div)
  from a b c show ?thesis by blast
qed

section \<open>Demand\<close>

lemma ceil_nat_div:
  assumes "0 < d"
  shows "nat \<lceil>rat_of_nat a / rat_of_nat d\<rceil> = a div d + (if d dvd a then 0 else 1)"
proof (cases "d dvd a")
  case True
  then obtain k where k: "a = d * k" by (auto simp: dvd_def)
  have "rat_of_nat a / rat_of_nat d = rat_of_nat k" using assms k by simp
  then have "\<lceil>rat_of_nat a / rat_of_nat d\<rceil> = int k" by simp
  with True k assms show ?thesis by simp
next
  case False
  define q where "q = a div d"
  define r where "r = a mod d"
  have r: "0 < r" "r < d" using False assms by (auto simp: r_def dvd_eq_mod_eq_0)
  have a: "a = q * d + r" by (simp add: q_def r_def)
  have dpos: "0 < rat_of_nat d" using assms by simp
  have lo: "rat_of_int (int (q + 1)) - 1 < rat_of_nat a / rat_of_nat d"
  proof -
    have "rat_of_nat q * rat_of_nat d < rat_of_nat a"
      unfolding a using r by (simp del: of_nat_add of_nat_mult add: of_nat_add of_nat_mult)
    then have "rat_of_nat q < rat_of_nat a / rat_of_nat d"
      using dpos by (simp add: pos_less_divide_eq)
    then show ?thesis by simp
  qed
  have hi: "rat_of_nat a / rat_of_nat d \<le> rat_of_int (int (q + 1))"
  proof -
    have "a \<le> (q + 1) * d" unfolding a using r by simp
    then have "rat_of_nat a \<le> rat_of_nat ((q + 1) * d)" by (simp only: of_nat_le_iff)
    then have "rat_of_nat a \<le> rat_of_nat (q + 1) * rat_of_nat d" by (simp only: of_nat_mult)
    then have "rat_of_nat a / rat_of_nat d \<le> rat_of_nat (q + 1)"
      using dpos by (simp add: pos_divide_le_eq)
    then show ?thesis by simp
  qed
  have "\<lceil>rat_of_nat a / rat_of_nat d\<rceil> = int (q + 1)"
    using lo hi by (rule ceiling_unique)
  with False show ?thesis by (simp add: q_def)
qed

lemma floor_nat_div: "nat \<lfloor>rat_of_nat a / rat_of_nat d\<rfloor> = a div d"
proof -
  have "\<lfloor>rat_of_nat a / rat_of_nat d\<rfloor> = int (a div d)"
    by (rule floor_divide_of_nat_eq)
  then show ?thesis by simp
qed

lemma floor_quot_div: "0 < b \<Longrightarrow> floor_quot a b = Fin (a div b)"
  by (simp add: floor_quot_def floor_nat_div)

lemma ceil_quot_div: "0 < b \<Longrightarrow> ceil_quot a b = Fin (a div b + (if b dvd a then 0 else 1))"
  by (simp add: ceil_quot_def ceil_nat_div)

text \<open>
  Claim C7.  For a positive session duration, the number of sessions a subject needs is
  the ceiling of its weekly minutes over the session duration: the quotient, and one
  more when there is a remainder, so that the sessions cover the weekly minutes and one
  session fewer would not.  For a subject of at least one weekly hour the number is at
  least 1, whatever the session duration (it is \<open>Infinity\<close> for the duration 0).
\<close>

theorem sessions_needed_rounds_up:
  "(0 < d \<longrightarrow>
      (\<exists>n. sessions_needed s d = Fin n
           \<and> int n = \<lceil>rat_of_nat (weeklyHours s * 60) / rat_of_nat d\<rceil>
           \<and> n = weeklyHours s * 60 div d + (if d dvd weeklyHours s * 60 then 0 else 1)
           \<and> weeklyHours s * 60 \<le> n * d
           \<and> (0 < n \<longrightarrow> (n - 1) * d < weeklyHours s * 60)))
   \<and> (1 \<le> weeklyHours s \<longrightarrow> lt_js 0 (sessions_needed s d))"
proof -
  define a where "a = weeklyHours s * 60"
  have p1: "\<exists>n. sessions_needed s d = Fin n
           \<and> int n = \<lceil>rat_of_nat a / rat_of_nat d\<rceil>
           \<and> n = a div d + (if d dvd a then 0 else 1)
           \<and> a \<le> n * d
           \<and> (0 < n \<longrightarrow> (n - 1) * d < a)" if d: "0 < d"
  proof -
    define n where "n = a div d + (if d dvd a then 0 else 1)"
    have s: "sessions_needed s d = Fin n"
      using d by (simp add: sessions_needed_def Let_def ceil_quot_div n_def a_def)
    have c: "int n = \<lceil>rat_of_nat a / rat_of_nat d\<rceil>"
    proof -
      have "0 \<le> rat_of_nat a / rat_of_nat d" by simp
      then have "- 1 < rat_of_nat a / rat_of_nat d" by linarith
      then have "0 \<le> \<lceil>rat_of_nat a / rat_of_nat d\<rceil>" by (simp only: zero_le_ceiling)
      then have "int (nat \<lceil>rat_of_nat a / rat_of_nat d\<rceil>) = \<lceil>rat_of_nat a / rat_of_nat d\<rceil>" by simp
      then show ?thesis using ceil_nat_div [OF d, of a] by (simp add: n_def)
    qed
    have up: "a \<le> n * d"
    proof (cases "d dvd a")
      case True then show ?thesis by (simp add: n_def)
    next
      case False
      have "a div d * d + a mod d = a" by simp
      moreover have "a mod d < d" using d by simp
      ultimately have "a \<le> a div d * d + d" by linarith
      then show ?thesis using False by (simp add: n_def)
    qed
    have lo: "(n - 1) * d < a" if "0 < n"
    proof (cases "d dvd a")
      case True
      with that have "0 < a div d" by (simp add: n_def)
      then have "(a div d - 1) * d < a div d * d" using d by simp
      then show ?thesis using True by (simp add: n_def)
    next
      case False
      then have "0 < a mod d" by (simp add: dvd_eq_mod_eq_0)
      moreover have "a div d * d + a mod d = a" by simp
      ultimately have "a div d * d < a" by linarith
      then show ?thesis using False by (simp add: n_def)
    qed
    have e: "n = a div d + (if d dvd a then 0 else 1)" by (rule n_def)
    have lo': "0 < n \<longrightarrow> (n - 1) * d < a" using lo by (rule impI)
    show ?thesis by (rule exI [of _ n]) (intro conjI s c e up lo')
  qed
  have p2: "lt_js 0 (sessions_needed s d)" if w: "1 \<le> weeklyHours s"
  proof (cases "d = 0")
    case True
    with w show ?thesis by (simp add: sessions_needed_def Let_def ceil_quot_def)
  next
    case False
    then have d: "0 < d" by simp
    have apos: "0 < a" using w by (simp add: a_def)
    have "0 < a div d + (if d dvd a then 0 else 1)"
    proof (cases "d dvd a")
      case True
      then have "d \<le> a" using apos by (simp add: dvd_imp_le)
      then have "0 < a div d" using d by (simp add: div_greater_zero_iff)
      then show ?thesis by simp
    next
      case False then show ?thesis by simp
    qed
    then show ?thesis using d by (simp add: sessions_needed_def Let_def ceil_quot_div a_def)
  qed
  have q1: "0 < d \<longrightarrow> (\<exists>n. sessions_needed s d = Fin n
           \<and> int n = \<lceil>rat_of_nat a / rat_of_nat d\<rceil>
           \<and> n = a div d + (if d dvd a then 0 else 1)
           \<and> a \<le> n * d
           \<and> (0 < n \<longrightarrow> (n - 1) * d < a))"
    by (rule impI) (rule p1)
  have q2: "1 \<le> weeklyHours s \<longrightarrow> lt_js 0 (sessions_needed s d)"
    by (rule impI) (rule p2)
  from q1 q2 show ?thesis unfolding a_def by (rule conjI)
qed

theorem sessions_needed_rounds_up_witness:
  "(0::nat) < 25 \<and> 1 \<le> weeklyHours math \<and> sessions_needed math 25 = Fin 12 \<and> lt_js 0 (sessions_needed math 25)"
proof -
  have w: "weeklyHours math = 5" by (simp add: math_def)
  have "300 div 25 = (12::nat)" by simp
  then show ?thesis using sessions_needed_rounds_up [of 25 math] by (simp add: w)
qed

section \<open>Rounding to a double\<close>

text \<open>
  The rounding of the scorer's arithmetic is to the nearest double: the exponent found
  by \<open>ilog2\<close> brackets the number between two powers of two, and the rounded significand
  is within a half of the scaled number.
\<close>

lemma round_half_even_near: "\<bar>rat_of_int (round_half_even y) - y\<bar> \<le> 1 / 2"
proof -
  define f where "f = \<lfloor>y\<rfloor>"
  define r where "r = y - rat_of_int f"
  have r0: "0 \<le> r" and r1: "r < 1" unfolding r_def f_def by linarith+
  have y: "y = rat_of_int f + r" by (simp add: r_def)
  have rh: "round_half_even y = (if r < 1 / 2 then f else if 1 / 2 < r then f + 1 else if even f then f else f + 1)"
    by (simp add: round_half_even_def Let_def f_def r_def)
  have d0: "rat_of_int f - y = - r" and d1: "rat_of_int (f + 1) - y = 1 - r"
    by (simp_all add: r_def)
  consider "r < 1 / 2" | "1 / 2 < r" | "r = 1 / 2" by linarith
  then show ?thesis
  proof cases
    case 1
    then have "round_half_even y = f" by (simp add: rh)
    then have e: "rat_of_int (round_half_even y) - y = - r" using d0 by simp
    show ?thesis unfolding e using 1 r0 by simp
  next
    case 2
    then have "round_half_even y = f + 1" by (simp add: rh)
    then have e: "rat_of_int (round_half_even y) - y = 1 - r" using d1 by simp
    show ?thesis unfolding e using 2 r1 by simp
  next
    case 3
    then have "round_half_even y = f \<or> round_half_even y = f + 1" by (simp add: rh)
    then have "rat_of_int (round_half_even y) - y = - r \<or> rat_of_int (round_half_even y) - y = 1 - r"
      using d0 d1 by auto
    then show ?thesis
    proof
      assume e: "rat_of_int (round_half_even y) - y = - r"
      show ?thesis unfolding e using 3 by simp
    next
      assume e: "rat_of_int (round_half_even y) - y = 1 - r"
      show ?thesis unfolding e using 3 by simp
    qed
  qed
qed

lemma bit_length_bounds:
  "0 < k \<Longrightarrow> 1 \<le> bit_length k \<and> 2 ^ nat (bit_length k - 1) \<le> k \<and> k < 2 ^ nat (bit_length k)"
proof (induction k rule: bit_length.induct)
  case (1 k)
  show ?case
  proof (cases "k = 1")
    case True
    have "bit_length 1 = 1" by (simp add: bit_length.simps [of 1] bit_length.simps [of 0])
    with True show ?thesis by simp
  next
    case False
    with "1.prems" have k2: "0 < k div 2" by simp
    have ih: "1 \<le> bit_length (k div 2) \<and> 2 ^ nat (bit_length (k div 2) - 1) \<le> k div 2
              \<and> k div 2 < 2 ^ nat (bit_length (k div 2))"
      using "1.IH" "1.prems" k2 by simp
    define b where "b = bit_length (k div 2)"
    have bl: "bit_length k = 1 + b" using "1.prems" by (simp add: bit_length.simps [of k] b_def)
    have b1: "1 \<le> b" using ih by (simp add: b_def)
    have n1: "nat (1 + b - 1) = Suc (nat (b - 1))" using b1 by simp
    have n2: "nat (1 + b) = Suc (nat b)" using b1 by simp
    have lo: "2 * 2 ^ nat (b - 1) \<le> k" using ih unfolding b_def [symmetric] by linarith
    have hi: "k < 2 * 2 ^ nat b" using ih unfolding b_def [symmetric] by linarith
    show ?thesis unfolding bl n1 n2 using b1 lo hi by simp
  qed
qed


lemma pow2_powi: "pow2 e = 2 powi e"
  by (simp add: pow2_def power_int_def inverse_eq_divide power_one_over)

lemma pow2_pos: "0 < pow2 e"
  by (simp add: pow2_powi)

lemma pow2_add: "pow2 (a + b) = pow2 a * pow2 b"
  by (simp add: pow2_powi power_int_add)

lemma pow2_of_nat: "0 \<le> b \<Longrightarrow> rat_of_int (2 ^ nat b) = pow2 b"
  by (simp add: pow2_def)

lemma ilog2_bounds:
  assumes "0 < x"
  shows "pow2 (ilog2 x) \<le> x \<and> x < pow2 (ilog2 x + 1)"
proof -
  obtain p q where pq: "quotient_of x = (p, q)" by (cases "quotient_of x")
  have q: "0 < q" using pq by (rule quotient_of_denom_pos)
  have x: "x = rat_of_int p / rat_of_int q" using pq by (rule quotient_of_div)
  have p: "0 < p"
  proof (rule ccontr)
    assume "\<not> 0 < p"
    then have "rat_of_int p \<le> 0" by simp
    then have "x \<le> 0" unfolding x using q by (simp add: divide_nonpos_pos)
    with assms show False by simp
  qed
  define bp where "bp = bit_length p"
  define bq where "bq = bit_length q"
  have P: "1 \<le> bp" "2 ^ nat (bp - 1) \<le> p" "p < 2 ^ nat bp"
    using bit_length_bounds [OF p] by (simp_all add: bp_def)
  have Q: "1 \<le> bq" "2 ^ nat (bq - 1) \<le> q" "q < 2 ^ nat bq"
    using bit_length_bounds [OF q] by (simp_all add: bq_def)
  have p_lo: "pow2 (bp - 1) \<le> rat_of_int p"
  proof -
    have "pow2 (bp - 1) = rat_of_int (2 ^ nat (bp - 1))" using P(1) by (simp add: pow2_def)
    then show ?thesis using P(2) by (simp only: of_int_le_iff)
  qed
  have p_hi: "rat_of_int p < pow2 bp"
  proof -
    have "pow2 bp = rat_of_int (2 ^ nat bp)" using P(1) by (simp add: pow2_def)
    then show ?thesis using P(3) by (simp only: of_int_less_iff)
  qed
  have q_lo: "pow2 (bq - 1) \<le> rat_of_int q"
  proof -
    have "pow2 (bq - 1) = rat_of_int (2 ^ nat (bq - 1))" using Q(1) by (simp add: pow2_def)
    then show ?thesis using Q(2) by (simp only: of_int_le_iff)
  qed
  have q_hi: "rat_of_int q < pow2 bq"
  proof -
    have "pow2 bq = rat_of_int (2 ^ nat bq)" using Q(1) by (simp add: pow2_def)
    then show ?thesis using Q(3) by (simp only: of_int_less_iff)
  qed
  have qpos: "0 < rat_of_int q" using q by simp
  define k where "k = bp - bq"
  have hi: "x < pow2 (k + 1)"
  proof -
    have "pow2 (k + 1) * pow2 (bq - 1) = pow2 bp"
      by (simp add: pow2_add [symmetric] k_def)
    then have "rat_of_int p < pow2 (k + 1) * pow2 (bq - 1)" using p_hi by simp
    also have "\<dots> \<le> pow2 (k + 1) * rat_of_int q"
      using q_lo pow2_pos [of "k + 1"] by (simp add: mult_left_mono less_imp_le)
    finally show ?thesis unfolding x using qpos by (simp add: pos_divide_less_eq)
  qed
  have lo: "pow2 (k - 1) < x"
  proof -
    have "pow2 (k - 1) * pow2 bq = pow2 (bp - 1)"
      by (simp add: pow2_add [symmetric] k_def)
    have "pow2 (k - 1) * rat_of_int q < pow2 (k - 1) * pow2 bq"
      using q_hi pow2_pos [of "k - 1"] by (simp add: mult_strict_left_mono)
    also have "\<dots> = pow2 (bp - 1)" by fact
    also have "\<dots> \<le> rat_of_int p" by (rule p_lo)
    finally show ?thesis unfolding x using qpos by (simp add: pos_less_divide_eq)
  qed
  have il: "ilog2 x = (if pow2 k \<le> x then k else k - 1)"
    by (simp add: ilog2_def Let_def pq k_def bp_def bq_def)
  show ?thesis
  proof (cases "pow2 k \<le> x")
    case True
    then show ?thesis using hi by (simp add: il)
  next
    case False
    then show ?thesis using lo by (simp add: il)
  qed
qed


lemma round_half_even_mono_int:
  "rat_of_int a \<le> y \<Longrightarrow> a \<le> round_half_even y"
  "y \<le> rat_of_int b \<Longrightarrow> round_half_even y \<le> b"
proof -
  have n: "\<bar>rat_of_int (round_half_even y) - y\<bar> \<le> 1 / 2" by (rule round_half_even_near)
  {
    assume "rat_of_int a \<le> y"
    with n have "rat_of_int a - 1 / 2 \<le> rat_of_int (round_half_even y)" by linarith
    then have "rat_of_int a - 1 < rat_of_int (round_half_even y)" by linarith
    then have "rat_of_int (a - 1) < rat_of_int (round_half_even y)" by simp
    then have "a - 1 < round_half_even y" by (simp only: of_int_less_iff)
    then show "a \<le> round_half_even y" by simp
  }
  {
    assume "y \<le> rat_of_int b"
    with n have "rat_of_int (round_half_even y) \<le> rat_of_int b + 1 / 2" by linarith
    then have "rat_of_int (round_half_even y) < rat_of_int b + 1" by linarith
    then have "rat_of_int (round_half_even y) < rat_of_int (b + 1)" by simp
    then have "round_half_even y < b + 1" by (simp only: of_int_less_iff)
    then show "round_half_even y \<le> b" by simp
  }
qed

text \<open>
  A positive number that rounds to a finite double rounds to a multiple \<open>m * 2 ^ e\<close> of
  the unit in its last place, with a significand \<open>m\<close> of at most 53 bits (of exactly 53 bits
  unless the double is subnormal), at most half a unit away.
\<close>

lemma round_double_nearest:
  assumes "0 < x" and "round_double x = DNum r"
  shows "\<exists>m e. e = max (ilog2 x - 52) (- 1074) \<and> r = rat_of_int m * pow2 e
            \<and> 0 \<le> m \<and> m \<le> 2 ^ 53 \<and> (e = ilog2 x - 52 \<longrightarrow> 2 ^ 52 \<le> m)
            \<and> \<bar>r - x\<bar> \<le> pow2 e / 2"
proof -
  define e where "e = max (ilog2 x - 52) (- 1074)"
  define m where "m = round_half_even (x / pow2 e)"
  have pe: "0 < pow2 e" by (rule pow2_pos)
  have r: "r = rat_of_int m * pow2 e"
    using assms by (auto simp add: round_double_def Let_def e_def m_def split: if_splits)
  have near: "\<bar>rat_of_int m - x / pow2 e\<bar> \<le> 1 / 2"
    unfolding m_def by (rule round_half_even_near)
  have "\<bar>r - x\<bar> = \<bar>rat_of_int m - x / pow2 e\<bar> * pow2 e"
  proof -
    have "r - x = (rat_of_int m - x / pow2 e) * pow2 e"
      using pe by (simp add: r field_simps)
    then show ?thesis using pe by (simp add: abs_mult)
  qed
  also have "\<dots> \<le> 1 / 2 * pow2 e"
    using near pe by (simp add: mult_right_mono less_imp_le)
  finally have err: "\<bar>r - x\<bar> \<le> pow2 e / 2" by simp
  have m0: "0 \<le> m"
  proof -
    have "rat_of_int 0 \<le> x / pow2 e" using assms(1) pe by simp
    then show ?thesis unfolding m_def by (rule round_half_even_mono_int)
  qed
  have b: "pow2 (ilog2 x) \<le> x" "x < pow2 (ilog2 x + 1)"
    using ilog2_bounds [OF assms(1)] by simp_all
  have m53: "m \<le> 2 ^ 53"
  proof -
    have "ilog2 x + 1 \<le> e + 53" by (simp add: e_def)
    then have "pow2 (ilog2 x + 1) \<le> pow2 (e + 53)"
      by (simp add: pow2_powi power_int_increasing)
    with b(2) have "x < pow2 (e + 53)" by simp
    also have "\<dots> = pow2 53 * pow2 e" by (simp add: pow2_add mult.commute)
    finally have "x / pow2 e < pow2 53" using pe by (simp add: pos_divide_less_eq)
    moreover have "pow2 53 = rat_of_int (2 ^ 53)" by (simp add: pow2_def)
    ultimately have "x / pow2 e \<le> rat_of_int (2 ^ 53)" by simp
    then show ?thesis unfolding m_def by (rule round_half_even_mono_int)
  qed
  have m52: "2 ^ 52 \<le> m" if "e = ilog2 x - 52"
  proof -
    have "pow2 (ilog2 x) = pow2 52 * pow2 e" using that by (simp add: pow2_add [symmetric])
    with b(1) have "pow2 52 * pow2 e \<le> x" by simp
    then have "pow2 52 \<le> x / pow2 e" using pe by (simp add: pos_le_divide_eq)
    moreover have "pow2 52 = rat_of_int (2 ^ 52)" by (simp add: pow2_def)
    ultimately have "rat_of_int (2 ^ 52) \<le> x / pow2 e" by simp
    then show ?thesis unfolding m_def by (rule round_half_even_mono_int)
  qed
  show ?thesis
    using r m0 m53 m52 err unfolding e_def [symmetric] by blast
qed

lemma round_double_not_NaN: "round_double x \<noteq> DNaN"
  by (simp add: round_double_def Let_def)

section \<open>Priority\<close>




lemma weight_read_inherited:
  assumes "d \<in> set object_prototype_members"
  shows "to_number (or_one (read_weight d)) = DNaN"
proof -
  have "map_of DIFFICULTY_WEIGHTS d = None"
    using assms by (auto simp add: DIFFICULTY_WEIGHTS_def object_prototype_members_def)
  then have "read_weight d = Inherited" using assms by (simp add: read_weight_def)
  then show ?thesis by (simp add: or_one_def to_number_def)
qed




lemma calculatePriority_double_inherited:
  assumes "difficulty s \<in> set object_prototype_members"
  shows "calculatePriority_double s = DNaN"
  unfolding calculatePriority_double_def Let_def weight_read_inherited [OF assms]
  by simp

text \<open>
  The rounding is the one of the code: \<open>1.5 * 0.2\<close> is the double
  \<open>0.30000000000000004\<close>, and the literals \<open>0.2\<close>, \<open>0.1\<close> and \<open>0.3\<close> have their
  known significands.
\<close>

lemma double_rounding_example:
  "calculatePriority_double biology = DNum (5404319552844596 / 2 ^ 54)
   \<and> (5404319552844596 / 2 ^ 54 :: rat) \<noteq> 3 / 10"
proof -
  have "calculatePriority_double biology = DNum (5404319552844596 / 2 ^ 54)" by code_simp
  then show ?thesis by simp
qed

lemma double_literals:
  "round_double (2 / 10) = DNum (7205759403792794 / 2 ^ 55)"
  "round_double (1 / 10) = DNum (7205759403792794 / 2 ^ 56)"
  "round_double (3 / 10) = DNum (5404319552844595 / 2 ^ 54)"
  by code_simp+

section \<open>The day regenerator and its existing-day argument\<close>

text \<open>
  Claim C10.  The sessions returned by \<open>regenerateDay\<close> do not depend on the existing
  day: for the same subjects, preferences and outcomes of the random source, any two
  existing days give the same session sequence.
\<close>

theorem regenerateDay_ignores_existing_day:
  "regenerateDay rnd d1 subjects p = regenerateDay rnd d2 subjects p"
  by (simp add: regenerateDay_def)

section \<open>The placement pass\<close>

lemma length_shuffle_loop: "length (shuffle_loop rnd k i xs) = length xs"
  by (induction i arbitrary: k xs) (simp_all add: Let_def)

lemma length_shuffleArray: "length (shuffleArray rnd xs) = length xs"
  by (simp add: shuffleArray_def length_shuffle_loop)

lemma lt_js_not_ge: "lt_js n mx \<Longrightarrow> \<not> ge_js n mx"
  by (cases mx) simp_all

lemma not_lt_js_ge: "mx \<noteq> NaN \<Longrightarrow> \<not> lt_js n mx \<Longrightarrow> ge_js n mx"
  by (cases mx) simp_all

lemma scan_inv_step:
  assumes "scan_inv mx tt cur n st"
  shows "scan_inv mx tt cur (Suc n) (scan_day mx tt n st)"
proof (cases "lt_js (study_count (tt ! n)) mx")
  case False
  then have "scan_day mx tt n st = st" by (simp add: scan_day_def)
  moreover have "scan_inv mx tt cur (Suc n) st"
    using assms False unfolding scan_inv_def by (auto simp: less_Suc_eq)
  ultimately show ?thesis by simp
next
  case under: True
  show ?thesis
  proof (cases "snd st")
    case None
    then have "scan_day mx tt n st = (n, Some (study_count (tt ! n)))"
      using under by (simp add: scan_day_def)
    moreover have "\<forall>e<n. \<not> lt_js (study_count (tt ! e)) mx"
      using assms None unfolding scan_inv_def by auto
    ultimately show ?thesis using under unfolding scan_inv_def by (auto simp: less_Suc_eq)
  next
    case (Some m)
    then have m: "m = study_count (tt ! fst st)" and t: "fst st < n"
      and mn: "\<forall>e<n. lt_js (study_count (tt ! e)) mx \<longrightarrow> study_count (tt ! fst st) \<le> study_count (tt ! e)"
      using assms unfolding scan_inv_def by auto
    show ?thesis
    proof (cases "study_count (tt ! n) < m")
      case True
      then have "scan_day mx tt n st = (n, Some (study_count (tt ! n)))"
        using under Some by (simp add: scan_day_def)
      moreover have "\<forall>e<n. lt_js (study_count (tt ! e)) mx \<longrightarrow> study_count (tt ! n) < study_count (tt ! e)"
        using mn True m by fastforce
      ultimately show ?thesis using under unfolding scan_inv_def
        by (auto simp: less_Suc_eq dest: less_imp_le)
    next
      case False
      then have "scan_day mx tt n st = st" using under Some by (simp add: scan_day_def)
      moreover have "scan_inv mx tt cur (Suc n) st"
        using assms False Some m unfolding scan_inv_def by (auto simp: less_Suc_eq)
      ultimately show ?thesis by simp
    qed
  qed
qed

lemma scan_inv_fold: "scan_inv mx tt cur n (fold (scan_day mx tt) [0..<n] (cur, None))"
proof (induction n)
  case 0
  show ?case by (simp add: scan_inv_def)
next
  case (Suc n)
  then show ?case by (simp add: scan_inv_step)
qed

lemma find_target_none:
  assumes "\<forall>e<7. \<not> lt_js (study_count (tt ! e)) mx"
  shows "find_target mx tt cur = cur"
  using scan_inv_fold [of mx tt cur 7] assms unfolding scan_inv_def find_target_def by auto

lemma find_target_some:
  assumes "\<exists>e<7. lt_js (study_count (tt ! e)) mx"
  shows "find_target mx tt cur < 7
     \<and> lt_js (study_count (tt ! find_target mx tt cur)) mx
     \<and> (\<forall>e<7. lt_js (study_count (tt ! e)) mx \<longrightarrow> study_count (tt ! find_target mx tt cur) \<le> study_count (tt ! e))
     \<and> (\<forall>e<find_target mx tt cur. lt_js (study_count (tt ! e)) mx \<longrightarrow> study_count (tt ! find_target mx tt cur) < study_count (tt ! e))"
  using scan_inv_fold [of mx tt cur 7] assms unfolding scan_inv_def find_target_def by auto

lemma study_filter_add_to_day:
  "\<exists>st en. filter (\<lambda>s. s_type s = Study) (sessions (add_to_day mx sessDur brkDur sd dy))
     = filter (\<lambda>s. s_type s = Study) (sessions dy) @ [study_session sd st en sessDur]"
  by (auto simp add: add_to_day_def Let_def study_session_def break_session_def)

lemma study_count_add_to_day:
  "study_count (add_to_day mx sessDur brkDur sd dy) = Suc (study_count dy)"
  using study_filter_add_to_day [of mx sessDur brkDur sd dy]
  by (auto simp add: study_count_def)

lemma placeSession_drop:
  assumes "\<forall>e<7. \<not> lt_js (study_count (tt ! e)) mx" and "cur < 7" and "mx \<noteq> NaN"
  shows "placeSession mx sessDur brkDur sd (tt, cur) = (tt, cur)"
proof -
  have t: "find_target mx tt cur = cur" using assms(1) by (rule find_target_none)
  have "ge_js (study_count (tt ! cur)) mx"
    using assms by (simp add: not_lt_js_ge)
  then show ?thesis by (simp add: placeSession_def Let_def t)
qed

lemma placeSession_place:
  assumes "\<exists>e<7. lt_js (study_count (tt ! e)) mx"
  shows "placeSession mx sessDur brkDur sd (tt, cur)
         = (tt[find_target mx tt cur := add_to_day mx sessDur brkDur sd (tt ! find_target mx tt cur)],
            (cur + 1) mod 7)"
proof -
  have "lt_js (study_count (tt ! find_target mx tt cur)) mx"
    using find_target_some [OF assms, of cur] by simp
  then have "\<not> ge_js (study_count (tt ! find_target mx tt cur)) mx" by (rule lt_js_not_ge)
  then show ?thesis by (simp add: placeSession_def Let_def)
qed

lemma placeSession_shape:
  "length (fst (placeSession mx sessDur brkDur sd st)) = length (fst st)
   \<and> (snd st < 7 \<longrightarrow> snd (placeSession mx sessDur brkDur sd st) < 7)"
  by (simp add: placeSession_def Let_def)

lemma fold_placeSession_shape:
  "length (fst (fold (placeSession mx sessDur brkDur) pool st)) = length (fst st)
   \<and> (snd st < 7 \<longrightarrow> snd (fold (placeSession mx sessDur brkDur) pool st) < 7)"
proof (induction pool arbitrary: st)
  case Nil
  show ?case by simp
next
  case (Cons sd pool)
  show ?case
    using Cons.IH [of "placeSession mx sessDur brkDur sd st"] placeSession_shape [of mx sessDur brkDur sd st]
    by simp
qed

lemma length_empty_timetable: "length empty_timetable = 7"
  by (simp add: empty_timetable_def DAYS_def)

lemma placeSession_capacity:
  assumes "length tt = 7" and "cur < 7" and "\<forall>d\<in>set tt. study_count d \<le> m"
  shows "\<forall>d\<in>set (fst (placeSession (Fin m) sessDur brkDur sd (tt, cur))). study_count d \<le> m"
proof (cases "\<exists>e<7. lt_js (study_count (tt ! e)) (Fin m)")
  case True
  let ?t = "find_target (Fin m) tt cur"
  have "lt_js (study_count (tt ! ?t)) (Fin m)"
    using find_target_some [OF True, of cur] by simp
  then have c: "study_count (add_to_day (Fin m) sessDur brkDur sd (tt ! ?t)) \<le> m"
    by (simp add: study_count_add_to_day)
  have "set (tt[?t := add_to_day (Fin m) sessDur brkDur sd (tt ! ?t)])
        \<subseteq> insert (add_to_day (Fin m) sessDur brkDur sd (tt ! ?t)) (set tt)"
    by (rule set_update_subset_insert)
  then show ?thesis using c assms(3) by (auto simp add: placeSession_place [OF True])
next
  case False
  then have "placeSession (Fin m) sessDur brkDur sd (tt, cur) = (tt, cur)"
    using assms(2) by (simp add: placeSession_drop)
  then show ?thesis using assms(3) by simp
qed

lemma fold_placeSession_capacity:
  assumes "length (fst st) = 7" and "snd st < 7" and "\<forall>d\<in>set (fst st). study_count d \<le> m"
  shows "\<forall>d\<in>set (fst (fold (placeSession (Fin m) sessDur brkDur) pool st)). study_count d \<le> m"
  using assms
proof (induction pool arbitrary: st)
  case Nil
  then show ?case by simp
next
  case (Cons sd pool)
  let ?st' = "placeSession (Fin m) sessDur brkDur sd st"
  have sh: "length (fst ?st') = 7 \<and> snd ?st' < 7"
    using placeSession_shape [of "Fin m" sessDur brkDur sd st] Cons.prems by simp
  have cap: "\<forall>d\<in>set (fst ?st'). study_count d \<le> m"
    using placeSession_capacity [of "fst st" "snd st" m sessDur brkDur sd] Cons.prems by simp
  show ?case using Cons.IH [of ?st'] sh cap by simp
qed

lemma study_count_empty_timetable: "\<forall>d\<in>set empty_timetable. study_count d = 0"
  by (simp add: empty_timetable_def DAYS_def study_count_def)

lemma sessionsNeeded_enrich: "sessionsNeeded (enrich d s) = sessions_needed s d"
  by (simp add: enrich_def subject.defs subjectData.defs)

lemma build_pool_finite:
  "\<forall>x\<in>set xs. sessionsNeeded x \<noteq> PosInf \<Longrightarrow> \<exists>pool. build_pool xs = Some pool"
proof (induction xs)
  case Nil
  show ?case by simp
next
  case (Cons x xs)
  then obtain r where r: "build_pool xs = Some r" by auto
  from Cons.prems have "sessionsNeeded x \<noteq> PosInf" by simp
  then obtain es where "entries_of x = Some es"
    by (cases "sessionsNeeded x") (simp_all add: entries_of_def)
  with r show ?case by simp
qed

lemma build_pool_no_count:
  "\<forall>x\<in>set xs. \<forall>k. sessionsNeeded x \<noteq> Fin k \<Longrightarrow> build_pool xs = Some pool \<Longrightarrow> pool = []"
proof (induction xs arbitrary: pool)
  case Nil
  then show ?case by simp
next
  case (Cons x xs)
  from Cons.prems(1) have nf: "\<forall>k. sessionsNeeded x \<noteq> Fin k" by simp
  from Cons.prems(2) obtain es r where es: "entries_of x = Some es" and r: "build_pool xs = Some r"
    and p: "pool = es @ r"
    by (auto split: option.splits)
  from es nf have "es = []" by (cases "sessionsNeeded x") (simp_all add: entries_of_def)
  moreover have "r = []" using Cons.IH [OF _ r] Cons.prems(1) by simp
  ultimately show ?case using p by simp
qed

lemma sessions_needed_pos_dur: "0 < d \<Longrightarrow> \<exists>k. sessions_needed s d = Fin k"
  by (simp add: sessions_needed_def Let_def ceil_quot_def)

lemma sessions_needed_zero_dur: "sessions_needed s 0 \<noteq> Fin k"
  by (simp add: sessions_needed_def Let_def ceil_quot_def)

lemma session_pool_returns:
  assumes "0 < pref_sessionDuration p"
  shows "\<exists>pool. session_pool rnd subjects p = Some pool"
proof -
  let ?xs = "sort_key (\<lambda>s. - priority s) (map (enrich (pref_sessionDuration p)) subjects)"
  have "\<forall>x\<in>set ?xs. sessionsNeeded x \<noteq> PosInf"
  proof
    fix x assume "x \<in> set ?xs"
    then obtain s where "x = enrich (pref_sessionDuration p) s" by auto
    then show "sessionsNeeded x \<noteq> PosInf"
      using sessions_needed_pos_dur [OF assms, of s] by (auto simp add: sessionsNeeded_enrich)
  qed
  then obtain pool where "build_pool ?xs = Some pool" using build_pool_finite by blast
  then show ?thesis by (simp add: session_pool_def Let_def)
qed

lemma session_pool_nonempty:
  assumes "session_pool rnd subjects p = Some pool" and "pool \<noteq> []"
  shows "0 < pref_sessionDuration p"
proof (rule ccontr)
  assume "\<not> 0 < pref_sessionDuration p"
  then have z: "pref_sessionDuration p = 0" by simp
  let ?xs = "sort_key (\<lambda>s. - priority s) (map (enrich 0) subjects)"
  have nf: "\<forall>x\<in>set ?xs. \<forall>k. sessionsNeeded x \<noteq> Fin k"
  proof
    fix x assume "x \<in> set ?xs"
    then obtain s where "x = enrich 0 s" by auto
    then show "\<forall>k. sessionsNeeded x \<noteq> Fin k"
      by (simp add: sessionsNeeded_enrich sessions_needed_zero_dur)
  qed
  from assms(1) obtain pool0 where b: "build_pool ?xs = Some pool0"
    and p: "pool = sort_key (\<lambda>t. - sd_priority t) (shuffleArray rnd pool0)"
    by (auto simp add: session_pool_def Let_def z split: option.splits)
  have "pool0 = []" using build_pool_no_count [OF nf b] .
  then have "length pool = 0" using p by (simp add: length_shuffleArray)
  with assms(2) show False by simp
qed

lemma session_pool_no_subjects: "session_pool rnd [] p = Some []"
  by (simp add: session_pool_def Let_def shuffleArray_def)

lemma maxSessionsPerDay_Fin: "maxSessionsPerDay p = Fin m \<Longrightarrow> 0 < pref_sessionDuration p"
  by (auto simp add: maxSessionsPerDay_def Let_def floor_quot_def split: if_splits)

lemma maxSessionsPerDay_pos_dur:
  "0 < pref_sessionDuration p \<Longrightarrow> maxSessionsPerDay p = Fin (pref_dailyHours p * 60 div pref_sessionDuration p)"
  by (simp add: maxSessionsPerDay_def Let_def floor_quot_div)

section \<open>The final layout keeps the study sessions\<close>

lemma layout_step_study:
  assumes "s_type s = Study"
  shows "length (filter (\<lambda>s. s_type s = Study) (fst (layout_step sessDur brkDur n (i, s) st)))
         = Suc (length (filter (\<lambda>s. s_type s = Study) (fst st)))"
  using assms by (simp add: layout_step_def Let_def break_session_def)

lemma fold_layout_study:
  assumes "\<forall>s\<in>set xs. s_type s = Study"
  shows "length (filter (\<lambda>s. s_type s = Study)
                  (fst (fold (layout_step sessDur brkDur n) (enumerate k xs) st)))
         = length (filter (\<lambda>s. s_type s = Study) (fst st)) + length xs"
  using assms
proof (induction xs arbitrary: k st)
  case Nil
  show ?case by simp
next
  case (Cons x xs)
  have "length (filter (\<lambda>s. s_type s = Study)
                  (fst (fold (layout_step sessDur brkDur n) (enumerate (Suc k) xs)
                         (layout_step sessDur brkDur n (k, x) st))))
        = length (filter (\<lambda>s. s_type s = Study) (fst (layout_step sessDur brkDur n (k, x) st))) + length xs"
    using Cons.IH [of "Suc k" "layout_step sessDur brkDur n (k, x) st"] Cons.prems by simp
  also have "\<dots> = Suc (length (filter (\<lambda>s. s_type s = Study) (fst st))) + length xs"
    using Cons.prems by (simp add: layout_step_study)
  finally show ?case by simp
qed

lemma study_count_rebuild_day: "study_count (rebuild_day sessDur brkDur d) = study_count d"
proof -
  let ?ss = "sort_key (\<lambda>s. - weight_or_one (s_difficulty s)) (filter (\<lambda>s. s_type s = Study) (sessions d))"
  have "\<forall>s\<in>set ?ss. s_type s = Study" by simp
  then have "length (filter (\<lambda>s. s_type s = Study)
                  (fst (fold (layout_step sessDur brkDur (length ?ss)) (enumerate 0 ?ss) ([], day_start))))
         = length (filter (\<lambda>s. s_type s = Study) (fst (([], day_start) :: session list \<times> clock))) + length ?ss"
    by (rule fold_layout_study)
  then show ?thesis by (simp add: rebuild_day_def Let_def study_count_def)
qed

lemma rebuild_day_no_sessions: "sessions d = [] \<Longrightarrow> rebuild_day sessDur brkDur d = d"
  by (simp add: rebuild_day_def Let_def)

lemma sessions_empty_timetable: "\<forall>d\<in>set empty_timetable. sessions d = []"
  by (simp add: empty_timetable_def DAYS_def)

lemma rebuild_empty_timetable: "map (rebuild_day sessDur brkDur) empty_timetable = empty_timetable"
proof -
  have "map (rebuild_day sessDur brkDur) empty_timetable = map (\<lambda>d. d) empty_timetable"
    by (rule map_cong) (simp_all add: sessions_empty_timetable rebuild_day_no_sessions)
  then show ?thesis by simp
qed

lemma fold_placeSession_full:
  assumes "\<forall>e<7. \<not> lt_js (study_count (tt ! e)) mx" and "cur < 7" and "mx \<noteq> NaN"
  shows "fold (placeSession mx sessDur brkDur) pool (tt, cur) = (tt, cur)"
  using assms by (induction pool) (simp_all add: placeSession_drop)

lemma empty_timetable_explicit:
  "empty_timetable =
     [\<lparr>dayOfWeek = 0, dayName = ''Monday'', sessions = [], totalStudyMinutes = 0, totalBreakMinutes = 0\<rparr>,
      \<lparr>dayOfWeek = 1, dayName = ''Tuesday'', sessions = [], totalStudyMinutes = 0, totalBreakMinutes = 0\<rparr>,
      \<lparr>dayOfWeek = 2, dayName = ''Wednesday'', sessions = [], totalStudyMinutes = 0, totalBreakMinutes = 0\<rparr>,
      \<lparr>dayOfWeek = 3, dayName = ''Thursday'', sessions = [], totalStudyMinutes = 0, totalBreakMinutes = 0\<rparr>,
      \<lparr>dayOfWeek = 4, dayName = ''Friday'', sessions = [], totalStudyMinutes = 0, totalBreakMinutes = 0\<rparr>,
      \<lparr>dayOfWeek = 5, dayName = ''Saturday'', sessions = [], totalStudyMinutes = 0, totalBreakMinutes = 0\<rparr>,
      \<lparr>dayOfWeek = 6, dayName = ''Sunday'', sessions = [], totalStudyMinutes = 0, totalBreakMinutes = 0\<rparr>]"
  by (simp add: empty_timetable_def DAYS_def)

section \<open>Degenerate inputs\<close>

text \<open>
  Claim C9.  The generator returns instead of failing on degenerate input: for an empty
  list of subjects it returns the seven days Monday to Sunday, numbered 0 to 6, each with
  no sessions and zero totals; and when \<open>floor(dailyHours * 60 / sessionDuration)\<close> is 0
  it returns seven days none of which holds a study session.
\<close>

theorem generateTimetable_degrades_gracefully:
  "generateTimetable rnd [] p =
     Some [\<lparr>dayOfWeek = 0, dayName = ''Monday'', sessions = [], totalStudyMinutes = 0, totalBreakMinutes = 0\<rparr>,
      \<lparr>dayOfWeek = 1, dayName = ''Tuesday'', sessions = [], totalStudyMinutes = 0, totalBreakMinutes = 0\<rparr>,
      \<lparr>dayOfWeek = 2, dayName = ''Wednesday'', sessions = [], totalStudyMinutes = 0, totalBreakMinutes = 0\<rparr>,
      \<lparr>dayOfWeek = 3, dayName = ''Thursday'', sessions = [], totalStudyMinutes = 0, totalBreakMinutes = 0\<rparr>,
      \<lparr>dayOfWeek = 4, dayName = ''Friday'', sessions = [], totalStudyMinutes = 0, totalBreakMinutes = 0\<rparr>,
      \<lparr>dayOfWeek = 5, dayName = ''Saturday'', sessions = [], totalStudyMinutes = 0, totalBreakMinutes = 0\<rparr>,
      \<lparr>dayOfWeek = 6, dayName = ''Sunday'', sessions = [], totalStudyMinutes = 0, totalBreakMinutes = 0\<rparr>]
   \<and> (maxSessionsPerDay p = Fin 0 \<longrightarrow>
        (\<exists>tt. generateTimetable rnd subjects p = Some tt \<and> length tt = 7
              \<and> (\<forall>d\<in>set tt. study_count d = 0 \<and> sessions d = [])))"
proof -
  have a: "generateTimetable rnd [] p = Some empty_timetable"
    by (simp add: generateTimetable_def allocate_def session_pool_no_subjects rebuild_empty_timetable)
  have b: "\<exists>tt. generateTimetable rnd subjects p = Some tt \<and> length tt = 7
              \<and> (\<forall>d\<in>set tt. study_count d = 0 \<and> sessions d = [])"
    if mx: "maxSessionsPerDay p = Fin 0"
  proof -
    have "0 < pref_sessionDuration p" using mx by (rule maxSessionsPerDay_Fin)
    then obtain pool where pool: "session_pool rnd subjects p = Some pool"
      using session_pool_returns by blast
    have full: "\<forall>e<7. \<not> lt_js (study_count (empty_timetable ! e)) (Fin 0)" by simp
    have "fold (placeSession (Fin 0) (pref_sessionDuration p) (pref_breakDuration p)) pool (empty_timetable, 0)
          = (empty_timetable, 0)"
      using full by (rule fold_placeSession_full) simp_all
    then have "generateTimetable rnd subjects p = Some empty_timetable"
      by (simp add: generateTimetable_def allocate_def pool mx rebuild_empty_timetable)
    then show ?thesis
      using length_empty_timetable sessions_empty_timetable study_count_empty_timetable by simp
  qed
  from a b show ?thesis unfolding empty_timetable_explicit [symmetric] by blast
qed

theorem generateTimetable_degrades_gracefully_witness:
  "maxSessionsPerDay long_sessions = Fin 0
   \<and> (\<exists>tt. generateTimetable (\<lambda>k. 0) [math] long_sessions = Some tt \<and> length tt = 7
            \<and> (\<forall>d\<in>set tt. study_count d = 0 \<and> sessions d = []))"
proof -
  have h: "maxSessionsPerDay long_sessions = Fin 0"
    by (simp add: maxSessionsPerDay_def long_sessions_def pref_dailyHours_def pref_sessionDuration_def floor_quot_def)
  show ?thesis
    using h generateTimetable_degrades_gracefully [of "\<lambda>k. 0" long_sessions "[math]"] by blast
qed

section \<open>Capacity of a day\<close>

text \<open>
  Claim C3.  When \<open>maxSessionsPerDay\<close> is a number \<open>m\<close>, it is
  \<open>dailyHours * 60 div sessionDuration\<close>, the generator returns, and no day holds more
  than \<open>m\<close> study sessions, neither after the placement pass nor in the final layout.
\<close>

theorem capacity_respected:
  assumes "maxSessionsPerDay p = Fin m"
  shows "m = pref_dailyHours p * 60 div pref_sessionDuration p
     \<and> (\<exists>prov tt. allocate rnd subjects p = Some prov \<and> generateTimetable rnd subjects p = Some tt
            \<and> length prov = 7 \<and> length tt = 7
            \<and> (\<forall>d\<in>set prov. study_count d \<le> m) \<and> (\<forall>d\<in>set tt. study_count d \<le> m))"
proof -
  have dur: "0 < pref_sessionDuration p" using assms by (rule maxSessionsPerDay_Fin)
  have m: "m = pref_dailyHours p * 60 div pref_sessionDuration p"
    using assms maxSessionsPerDay_pos_dur [OF dur] by simp
  obtain pool where pool: "session_pool rnd subjects p = Some pool"
    using session_pool_returns [OF dur] by blast
  define prov where "prov = fst (fold (placeSession (Fin m) (pref_sessionDuration p) (pref_breakDuration p))
                                   pool (empty_timetable, 0))"
  have a: "allocate rnd subjects p = Some prov"
    by (simp add: allocate_def pool assms prov_def)
  have g: "generateTimetable rnd subjects p
           = Some (map (rebuild_day (pref_sessionDuration p) (pref_breakDuration p)) prov)"
    by (simp add: generateTimetable_def a)
  have len: "length prov = 7"
    using fold_placeSession_shape [of "Fin m" "pref_sessionDuration p" "pref_breakDuration p" pool "(empty_timetable, 0)"]
    by (simp add: prov_def length_empty_timetable)
  have cap: "\<forall>d\<in>set prov. study_count d \<le> m"
    unfolding prov_def
    by (rule fold_placeSession_capacity) (simp_all add: length_empty_timetable study_count_empty_timetable)
  have cap': "\<forall>d\<in>set (map (rebuild_day (pref_sessionDuration p) (pref_breakDuration p)) prov). study_count d \<le> m"
    using cap by (simp add: study_count_rebuild_day)
  from m a g len cap cap' show ?thesis by simp
qed

theorem capacity_respected_witness:
  "maxSessionsPerDay default_preferences = Fin 9
   \<and> (\<exists>prov tt. allocate (\<lambda>k. 0) [math] default_preferences = Some prov
          \<and> generateTimetable (\<lambda>k. 0) [math] default_preferences = Some tt
          \<and> length prov = 7 \<and> length tt = 7
          \<and> (\<forall>d\<in>set prov. study_count d \<le> 9) \<and> (\<forall>d\<in>set tt. study_count d \<le> 9))"
proof -
  have h: "maxSessionsPerDay default_preferences = Fin 9"
    by (simp add: maxSessionsPerDay_def default_preferences_def pref_dailyHours_def
        pref_sessionDuration_def floor_quot_div)
  show ?thesis
    using h capacity_respected [OF h, of "\<lambda>k. 0" "[math]"] by blast
qed

section \<open>The target day of a pool entry\<close>

text \<open>
  Claim C5.  At every step of the walk over the pool, with \<open>st\<close> the state reached after
  the first \<open>k\<close> entries: if some day is under the capacity, the entry \<open>k\<close> is placed on
  the day \<open>d\<close> that is under the capacity, holds no more study sessions than any other
  day under the capacity, and holds strictly fewer than every such day before it; the
  day gains exactly one study session, for that entry.  If no day is under the capacity,
  the entry is dropped: the state is unchanged.
\<close>

theorem token_placement:
  assumes pool: "session_pool rnd subjects p = Some pool" and k: "k < length pool"
    and st: "st = fold (placeSession (maxSessionsPerDay p) (pref_sessionDuration p) (pref_breakDuration p))
                       (take k pool) (empty_timetable, 0)"
  shows "(\<exists>d<7. lt_js (study_count (fst st ! d)) (maxSessionsPerDay p)
            \<and> (\<forall>e<7. lt_js (study_count (fst st ! e)) (maxSessionsPerDay p)
                    \<longrightarrow> study_count (fst st ! d) \<le> study_count (fst st ! e))
            \<and> (\<forall>e<d. lt_js (study_count (fst st ! e)) (maxSessionsPerDay p)
                    \<longrightarrow> study_count (fst st ! d) < study_count (fst st ! e))
            \<and> placeSession (maxSessionsPerDay p) (pref_sessionDuration p) (pref_breakDuration p) (pool ! k) st
                = ((fst st)[d := add_to_day (maxSessionsPerDay p) (pref_sessionDuration p) (pref_breakDuration p)
                                   (pool ! k) (fst st ! d)],
                   (snd st + 1) mod 7)
            \<and> (\<exists>b e. filter (\<lambda>s. s_type s = Study)
                         (sessions (add_to_day (maxSessionsPerDay p) (pref_sessionDuration p) (pref_breakDuration p)
                                      (pool ! k) (fst st ! d)))
                       = filter (\<lambda>s. s_type s = Study) (sessions (fst st ! d))
                         @ [study_session (pool ! k) b e (pref_sessionDuration p)]))
         \<or> ((\<forall>e<7. \<not> lt_js (study_count (fst st ! e)) (maxSessionsPerDay p))
            \<and> placeSession (maxSessionsPerDay p) (pref_sessionDuration p) (pref_breakDuration p) (pool ! k) st = st)"
proof -
  let ?mx = "maxSessionsPerDay p"
  let ?sd = "pref_sessionDuration p"
  let ?bd = "pref_breakDuration p"
  have "pool \<noteq> []" using k by auto
  then have dur: "0 < ?sd" using session_pool_nonempty [OF pool] by simp
  have nn: "?mx \<noteq> NaN" using maxSessionsPerDay_pos_dur [OF dur] by simp
  have cur: "snd st < 7"
    using fold_placeSession_shape [of ?mx ?sd ?bd "take k pool" "(empty_timetable, 0)"] st by simp
  obtain tt c where stc: "st = (tt, c)" by (cases st)
  show ?thesis
  proof (cases "\<exists>e<7. lt_js (study_count (tt ! e)) ?mx")
    case True
    let ?d = "find_target ?mx tt c"
    have "?d < 7 \<and> lt_js (study_count (tt ! ?d)) ?mx
       \<and> (\<forall>e<7. lt_js (study_count (tt ! e)) ?mx \<longrightarrow> study_count (tt ! ?d) \<le> study_count (tt ! e))
       \<and> (\<forall>e<?d. lt_js (study_count (tt ! e)) ?mx \<longrightarrow> study_count (tt ! ?d) < study_count (tt ! e))"
      using True by (rule find_target_some)
    moreover have "placeSession ?mx ?sd ?bd (pool ! k) (tt, c)
        = (tt[?d := add_to_day ?mx ?sd ?bd (pool ! k) (tt ! ?d)], (c + 1) mod 7)"
      using True by (rule placeSession_place)
    moreover have "\<exists>b e. filter (\<lambda>s. s_type s = Study) (sessions (add_to_day ?mx ?sd ?bd (pool ! k) (tt ! ?d)))
         = filter (\<lambda>s. s_type s = Study) (sessions (tt ! ?d)) @ [study_session (pool ! k) b e ?sd]"
      by (rule study_filter_add_to_day)
    ultimately show ?thesis unfolding stc fst_conv snd_conv by blast
  next
    case False
    then have f: "\<forall>e<7. \<not> lt_js (study_count (tt ! e)) ?mx" by simp
    have "placeSession ?mx ?sd ?bd (pool ! k) (tt, c) = (tt, c)"
      using f cur nn unfolding stc snd_conv by (rule placeSession_drop)
    with f show ?thesis unfolding stc fst_conv snd_conv by blast
  qed
qed


theorem token_placement_witness:
  "session_pool (\<lambda>k. 0) [one_hour] hour_sessions = Some [essay_token]
   \<and> (0::nat) < length [essay_token]
   \<and> placeSession (Fin 4) 60 5 essay_token (empty_timetable, 0)
       = (empty_timetable[0 := add_to_day (Fin 4) 60 5 essay_token (empty_timetable ! 0)], 1)"
proof -
  have pool: "session_pool (\<lambda>k. 0) [one_hour] hour_sessions = Some [essay_token]"
    by code_simp
  have k: "(0::nat) < length [essay_token]" by simp
  have st: "(empty_timetable, 0::nat)
            = fold (placeSession (maxSessionsPerDay hour_sessions) (pref_sessionDuration hour_sessions)
                      (pref_breakDuration hour_sessions))
                   (take 0 [essay_token]) (empty_timetable, 0)"
    by simp
  have sd: "pref_sessionDuration hour_sessions = 60" and bd: "pref_breakDuration hour_sessions = 5"
    by (simp_all add: pref_sessionDuration_def pref_breakDuration_def hour_sessions_def)
  have mx: "maxSessionsPerDay hour_sessions = Fin 4"
    by (simp add: maxSessionsPerDay_def hour_sessions_def pref_dailyHours_def
        pref_sessionDuration_def floor_quot_div)
  have cnt: "study_count (empty_timetable ! e) = 0" if "e < 7" for e
    using that study_count_empty_timetable length_empty_timetable by (simp add: nth_mem)
  note T = token_placement [OF pool k st, unfolded mx sd bd fst_conv snd_conv]
  have under: "lt_js (study_count (empty_timetable ! 0)) (Fin 4)" by (simp add: cnt)
  from T under obtain d where d: "d < 7"
    and first: "\<forall>e<d. lt_js (study_count (empty_timetable ! e)) (Fin 4)
                  \<longrightarrow> study_count (empty_timetable ! d) < study_count (empty_timetable ! e)"
    and placed: "placeSession (Fin 4) 60 5 ([essay_token] ! 0) (empty_timetable, 0)
                 = (empty_timetable[d := add_to_day (Fin 4) 60 5 ([essay_token] ! 0) (empty_timetable ! d)],
                    (0 + 1) mod 7)"
    by auto
  have "d = 0"
  proof (rule ccontr)
    assume "d \<noteq> 0"
    then have "0 < d" by simp
    with first under have "study_count (empty_timetable ! d) < study_count (empty_timetable ! 0)" by blast
    then show False by (simp add: cnt)
  qed
  with placed pool k show ?thesis by simp
qed

section \<open>Where the code departs from its description\<close>

text \<open>
  Claim C1.  The totals of a returned day are those of the placement pass; the final
  layout replaces the sessions and leaves the totals.  For one subject of one weekly
  hour and sessions of 60 minutes, Monday is returned with a single study session and no
  break, and with \<open>totalBreakMinutes = 5\<close>.
\<close>

theorem stale_break_total:
  "\<exists>tt. generateTimetable (\<lambda>k. 0) [one_hour] hour_sessions = Some tt
        \<and> map s_type (sessions (tt ! 0)) = [Study]
        \<and> totalBreakMinutes (tt ! 0) = 5 \<and> break_minutes (tt ! 0) = 0"
proof -
  have "map_option (\<lambda>tt. (map s_type (sessions (tt ! 0)), totalBreakMinutes (tt ! 0), break_minutes (tt ! 0)))
          (generateTimetable (\<lambda>k. 0) [one_hour] hour_sessions) = Some ([Study], 5, 0)"
    by code_simp
  then show ?thesis by auto
qed

text \<open>
  Claim C2.  With three subjects and \<open>maxSessionsPerDay = 4\<close> the regenerator returns
  three study sessions and three breaks, the last session being a break.
\<close>

theorem regenerateDay_trailing_break:
  "map s_type (regenerateDay (\<lambda>k. 0) monday [math, physics, reading] hour_sessions)
     = [Study, Break, Study, Break, Study, Break]
   \<and> maxSessionsPerDay hour_sessions = Fin 4"
  by code_simp

text \<open>
  Claim C4.  The sessions placed on a day carry no \<open>difficulty\<close>, so the final sort
  compares equal weights and keeps the order of placement, which is the order of
  priority: an easy subject of higher priority stays before a hard one.
\<close>

theorem easy_before_hard:
  "\<exists>tt. generateTimetable (\<lambda>k. 0) [physics, reading] hour_sessions = Some tt
        \<and> map s_subject (sessions (tt ! 0)) = [''Reading'', ''Break'', ''Physics'']
        \<and> difficulty reading = ''easy'' \<and> difficulty physics = ''hard''"
proof -
  have "map_option (\<lambda>tt. map s_subject (sessions (tt ! 0)))
          (generateTimetable (\<lambda>k. 0) [physics, reading] hour_sessions)
        = Some [''Reading'', ''Break'', ''Physics'']"
    by code_simp
  moreover have "difficulty reading = ''easy'' \<and> difficulty physics = ''hard''"
    by (simp add: reading_def physics_def)
  ultimately show ?thesis by auto
qed

section \<open>What the regenerator returns\<close>

text \<open>
  The regenerator returns one block per loop index: a study session, followed by a break
  when the index is below \<open>maxSessions - 1\<close>.  So it returns
  \<open>min maxSessions (length subjects)\<close> study sessions, and its last session is a break
  whenever there are fewer subjects than \<open>maxSessions\<close>.
\<close>

lemma regen_step_types:
  "map s_type (fst (regen_step mx sessDur brkDur subs i st))
   = map s_type (fst st) @ (if lt_pred_js i mx then [Study, Break] else [Study])"
  by (simp add: regen_step_def Let_def subject_session_def break_session_def)

lemma fold_regen_types:
  "map s_type (fst (fold (regen_step mx sessDur brkDur subs) [0..<n] st))
   = map s_type (fst st) @ concat (map (\<lambda>i. if lt_pred_js i mx then [Study, Break] else [Study]) [0..<n])"
proof (induction n)
  case 0
  show ?case by simp
next
  case (Suc n)
  show ?case by (simp add: regen_step_types Suc.IH)
qed

lemma regenerateDay_types:
  "map s_type (regenerateDay rnd d subjects p)
   = concat (map (\<lambda>i. if lt_pred_js i (maxSessionsPerDay p) then [Study, Break] else [Study])
               [0..<loop_bound (min_js (maxSessionsPerDay p) (length subjects))])"
  by (simp add: regenerateDay_def Let_def maxSessionsPerDay_def fold_regen_types length_shuffleArray)

lemma count_study_blocks:
  "length (filter (\<lambda>t. t = Study) (concat (map (\<lambda>i. if P i then [Study, Break] else [Study]) xs))) = length xs"
  by (induction xs) simp_all

lemma regenerateDay_study_count:
  assumes "maxSessionsPerDay p = Fin m"
  shows "length (filter (\<lambda>s. s_type s = Study) (regenerateDay rnd d subjects p)) = min m (length subjects)"
proof -
  have "length (filter (\<lambda>s. s_type s = Study) (regenerateDay rnd d subjects p))
        = length (filter (\<lambda>t. t = Study) (map s_type (regenerateDay rnd d subjects p)))"
    by (simp add: filter_map comp_def)
  also have "\<dots> = min m (length subjects)"
    unfolding regenerateDay_types by (simp add: count_study_blocks assms loop_bound_def)
  finally show ?thesis .
qed

lemma regenerateDay_last_is_break:
  assumes "maxSessionsPerDay p = Fin m" and "subjects \<noteq> []" and "length subjects < m"
  shows "s_type (last (regenerateDay rnd d subjects p)) = Break"
proof -
  let ?n = "length subjects"
  obtain n' where n': "?n = Suc n'" using assms(2) by (cases subjects) auto
  have lb: "loop_bound (min_js (maxSessionsPerDay p) ?n) = Suc n'"
    using assms n' by (simp add: loop_bound_def)
  have lt: "lt_pred_js n' (maxSessionsPerDay p)" using assms n' by simp
  have "map s_type (regenerateDay rnd d subjects p)
        = concat (map (\<lambda>i. if lt_pred_js i (Fin m) then [Study, Break] else [Study]) [0..<n']) @ [Study, Break]"
    using lt unfolding regenerateDay_types lb by (simp add: assms(1))
  then have "last (map s_type (regenerateDay rnd d subjects p)) = Break" by simp
  moreover have "regenerateDay rnd d subjects p \<noteq> []"
    using \<open>map s_type (regenerateDay rnd d subjects p) = _\<close> by auto
  ultimately show ?thesis by (simp add: last_map)
qed

end
